theory Spec2Isabelle
  imports Main
begin

section \<open>Text\<close>

text \<open>
  A Python \<open>str\<close> is a sequence of Unicode code points and \<open>len\<close> counts code points,
  so a text is a list of code points. \<open>lit\<close> reads an ASCII literal of the source.
\<close>

type_synonym codepoint = nat
type_synonym str = "codepoint list"

definition lit :: "string \<Rightarrow> str" where
  "lit s = map of_char s"

text \<open>
  \<open>str.split()\<close> and \<open>str.strip()\<close> without arguments use the whitespace of
  \<open>str.isspace\<close>: the 25 whitespace code points of Unicode and the four ASCII
  separators \<open>0x1C\<close> to \<open>0x1F\<close>.
\<close>

definition isspace :: "codepoint \<Rightarrow> bool" where
  "isspace c =
     (c \<in> set [0x09, 0x0A, 0x0B, 0x0C, 0x0D, 0x1C, 0x1D, 0x1E, 0x1F, 0x20, 0x85, 0xA0,
                0x1680, 0x2000, 0x2001, 0x2002, 0x2003, 0x2004, 0x2005, 0x2006, 0x2007,
                0x2008, 0x2009, 0x200A, 0x2028, 0x2029, 0x202F, 0x205F, 0x3000])"

definition nonspace :: "codepoint \<Rightarrow> bool" where
  "nonspace c = (\<not> isspace c)"

text \<open>
  \<open>s.split()\<close>: skip a run of whitespace; if the text is not over, a word starts at the
  next code point and runs to the next whitespace or the end; go on behind the word.
\<close>

function split :: "str \<Rightarrow> str list" where
  "split s =
     (case dropWhile isspace s of
        [] \<Rightarrow> []
      | c # cs \<Rightarrow> (c # takeWhile nonspace cs) # split (dropWhile nonspace cs))"
  by pat_completeness auto
termination
proof (relation "measure length")
  show "wf (measure length)" by simp
next
  fix s :: str and c cs
  assume "dropWhile isspace s = c # cs"
  then have "length (c # cs) \<le> length s"
    by (metis length_dropWhile_le)
  moreover have "length (dropWhile nonspace cs) \<le> length cs"
    by (rule length_dropWhile_le)
  ultimately show "(dropWhile nonspace cs, s) \<in> measure length"
    by simp
qed

declare split.simps [simp del]

text \<open>\<open>s.strip()\<close>: the text without its leading and trailing whitespace.\<close>

definition strip :: "str \<Rightarrow> str" where
  "strip s = rev (dropWhile isspace (rev (dropWhile isspace s)))"

section \<open>The chunked stream\<close>

text \<open>
  The loop of \<open>stream_response\<close> over the words of the result. The state is the buffer;
  the value is the chunks yielded inside the loop, in order, and the buffer left when the
  words are over. The pacing delay after a yield changes no value and is left out.
\<close>

fun for_word :: "str \<Rightarrow> str list \<Rightarrow> str list \<times> str" where
  "for_word buffer [] = ([], buffer)"
| "for_word buffer (word # words) =
     (let buffer1 = buffer @ word @ lit '' '' in
      if length buffer1 > 20
      then (let (yielded, left) = for_word [] words
            in ((strip buffer1 @ lit ''\<newline>\<newline>'') # yielded, left))
      else for_word buffer1 words)"

text \<open>
  The generator, as the list of the chunks it yields: those of the loop, then the last
  buffer if it is not empty.
\<close>

definition stream_response :: "str \<Rightarrow> str list" where
  "stream_response result =
     (let (yielded, buffer) = for_word [] (split result)
      in yielded @ (if buffer \<noteq> [] then [strip buffer @ lit ''\<newline>\<newline>''] else []))"

section \<open>The words of the specification\<close>

text \<open>
  \<open>sep.join(xs)\<close>, for rejoining chunks and words with single spaces.
\<close>

fun join :: "str \<Rightarrow> str list \<Rightarrow> str" where
  "join sep [] = []"
| "join sep [x] = x"
| "join sep (x # y # ys) = x @ sep @ join sep (y # ys)"

text \<open>A chunk without its trailing delimiter, the two newlines, if it ends with it.\<close>

definition trim_delimiter :: "str \<Rightarrow> str" where
  "trim_delimiter c =
     (if drop (length c - 2) c = lit ''\<newline>\<newline>'' then take (length c - 2) c else c)"

text \<open>
  The chunking as the specification words it, to be compared with \<open>stream_response\<close>.
  It has its own definitions of the words of a text and of trimming, which share only
  \<open>isspace\<close> with \<open>split\<close> and \<open>strip\<close>.

  The whitespace-delimited words of a text: its maximal runs of code points that are not
  whitespace, in order. \<open>scan_words w s\<close> reads the text \<open>s\<close> with the word \<open>w\<close> begun.
\<close>

fun scan_words :: "str \<Rightarrow> str \<Rightarrow> str list" where
  "scan_words w [] = (if w = [] then [] else [w])"
| "scan_words w (c # cs) =
     (if isspace c then (if w = [] then scan_words [] cs else w # scan_words [] cs)
      else scan_words (w @ [c]) cs)"

definition words_of :: "str \<Rightarrow> str list" where
  "words_of r = scan_words [] r"

text \<open>
  A text trimmed: from its first code point that is not whitespace up to its last one.
\<close>

fun trim_left :: "str \<Rightarrow> str" where
  "trim_left [] = []"
| "trim_left (c # cs) = (if isspace c then trim_left cs else c # cs)"

fun trim_right :: "str \<Rightarrow> str" where
  "trim_right [] = []"
| "trim_right (c # cs) = (if list_all isspace (c # cs) then [] else c # trim_right cs)"

definition trimmed :: "str \<Rightarrow> str" where
  "trimmed s = trim_right (trim_left s)"

text \<open>
  Words are accumulated, each followed by one space, until the length of the accumulation
  exceeds 20 or the words are over; the accumulation is flushed trimmed, with the
  delimiter; the same goes on with the words that are left, and nothing is flushed once
  no word is left.
\<close>

fun accumulate :: "str \<Rightarrow> str list \<Rightarrow> str \<times> str list" where
  "accumulate acc [] = (acc, [])"
| "accumulate acc (w # ws) =
     (if length acc > 20 then (acc, w # ws) else accumulate (acc @ w @ lit '' '') ws)"

function spec_chunks :: "str list \<Rightarrow> str list" where
  "spec_chunks [] = []"
| "spec_chunks (w # ws) =
     (let (acc, rest) = accumulate (w @ lit '' '') ws
      in (trimmed acc @ lit ''\<newline>\<newline>'') # spec_chunks rest)"
  by pat_completeness auto
termination
proof (relation "measure length")
  show "wf (measure length)" by simp
next
  fix w :: str and ws :: "str list" and x acc rest
  assume x: "x = accumulate (w @ lit '' '') ws" and "(acc, rest) = x"
  have "length (snd (accumulate a vs)) \<le> length vs" for a vs
    by (induction vs arbitrary: a) (auto intro: le_SucI)
  from this [of "w @ lit '' ''" ws] x \<open>(acc, rest) = x\<close>
  have "length rest \<le> length ws"
    by (metis snd_conv)
  then show "(rest, w # ws) \<in> measure length"
    by simp
qed

declare spec_chunks.simps [simp del]

section \<open>The conversation store\<close>

text \<open>
  Modelled from the spec: the store is the third-party buffer memory, whose code is not
  part of the repository. It is the ordered sequence of the (input, output) pairs saved so
  far; loading returns the sequence, saving appends one pair at the end, and neither
  fails.
\<close>

record ConversationEntry =
  entry_input :: str
  entry_output :: str

type_synonym ConversationHistory = "ConversationEntry list"

definition load_memory_variables :: "ConversationHistory \<Rightarrow> ConversationHistory" where
  "load_memory_variables memory = memory"

definition save_context :: "str \<Rightarrow> str \<Rightarrow> ConversationHistory \<Rightarrow> ConversationHistory" where
  "save_context inp out memory = memory @ [\<lparr>entry_input = inp, entry_output = out\<rparr>]"

section \<open>The request handler\<close>

text \<open>
  An exception raised in the \<open>try\<close> block: an instance of a class that derives from
  \<open>Exception\<close>, known by the name of its class.
\<close>

datatype exn = Exception string

text \<open>
  The provider library is a parameter: building the model object, calling the model on a
  prompt and reading the text of its response may each raise. \<open>GenerationError\<close> is
  the attribute of that name which the first \<open>except\<close> clause looks up in the module:
  the class, as the test whether an exception is an instance of it, or \<open>None\<close> when the
  module has no such attribute. The module \<open>google.generativeai\<close> that the source imports
  defines no such name, so for it the field is \<open>None\<close>.
\<close>

record ('m, 'r) genai =
  GenerativeModel :: "str \<Rightarrow> exn + 'm"
  generate_content :: "'m \<Rightarrow> str \<Rightarrow> exn + 'r"
  response_text :: "'r \<Rightarrow> exn + str"
  GenerationError :: "(exn \<Rightarrow> bool) option"

text \<open>
  How the handler ends: it returns the streaming response, it raises the
  \<open>HTTPException\<close> of an \<open>except\<close> clause, or an \<open>AttributeError\<close> leaves it uncaught.
\<close>

datatype response =
    StreamingResponse "str list" string
  | HTTPException nat string
  | AttributeError

text \<open>
  The prompt of the source's f-string; \<open>render\<close> is the rendering of the loaded messages
  that the f-string inserts, a parameter as well.
\<close>

definition full_prompt :: "str \<Rightarrow> str \<Rightarrow> str" where
  "full_prompt past_messages query =
     lit ''\<newline>        You are a helpful assistant. Your task is to respond to the user query as clearly and concisely as possible. \<newline>''
     @ lit ''        Maintain a friendly and informative tone. With a slightly big response message, you can break it down into smaller\<newline>''
     @ lit ''\<newline>''
     @ lit ''        History of conversation so far:\<newline>''
     @ lit ''        '' @ past_messages @ lit ''\<newline>''
     @ lit ''        \<newline>''
     @ lit ''        User: '' @ query @ lit ''\<newline>''
     @ lit ''        ''"

text \<open>
  The body of the \<open>try\<close> block on the shared memory: the exception raised or the response
  returned, and the memory afterwards.
\<close>

definition try_body ::
  "('m, 'r) genai \<Rightarrow> (ConversationHistory \<Rightarrow> str) \<Rightarrow> str \<Rightarrow> ConversationHistory
     \<Rightarrow> (exn + response) \<times> ConversationHistory" where
  "try_body genai render query memory =
     (case GenerativeModel genai (lit ''gemini-1.5-flash'') of
        Inl e \<Rightarrow> (Inl e, memory)
      | Inr model \<Rightarrow>
          (let past_messages = load_memory_variables memory;
               prompt = full_prompt (render past_messages) query
           in case generate_content genai model prompt of
                Inl e \<Rightarrow> (Inl e, memory)
              | Inr response \<Rightarrow>
                  (case response_text genai response of
                     Inl e \<Rightarrow> (Inl e, memory)
                   | Inr result \<Rightarrow>
                       (Inr (StreamingResponse (stream_response result) ''text/event-stream''),
                        save_context query result memory))))"

text \<open>
  The \<open>except\<close> clauses, in the source's order. Matching the exception against the first
  clause evaluates \<open>genai.GenerationError\<close>; where the module has no such attribute, this
  raises \<open>AttributeError\<close> inside the matching, the second clause is not tried, and the
  \<open>AttributeError\<close> leaves the handler.
\<close>

definition except :: "('m, 'r) genai \<Rightarrow> exn \<Rightarrow> response" where
  "except genai e =
     (case GenerationError genai of
        None \<Rightarrow> AttributeError
      | Some is_GenerationError \<Rightarrow>
          if is_GenerationError e then HTTPException 500 ''AI generation error.''
          else HTTPException 500 ''Internal server error.'')"

definition generate_response ::
  "('m, 'r) genai \<Rightarrow> (ConversationHistory \<Rightarrow> str) \<Rightarrow> str \<Rightarrow> ConversationHistory
     \<Rightarrow> response \<times> ConversationHistory" where
  "generate_response genai render query memory =
     (case try_body genai render query memory of
        (Inl e, memory') \<Rightarrow> (except genai e, memory')
      | (Inr response, memory') \<Rightarrow> (response, memory'))"

text \<open>The chunks a response streams to the caller: an error response streams none.\<close>

fun streamed :: "response \<Rightarrow> str list" where
  "streamed (StreamingResponse chunks media_type) = chunks"
| "streamed (HTTPException status detail) = []"
| "streamed AttributeError = []"

section \<open>Auxiliary notions for the proofs\<close>

text \<open>
  A word is a non-empty text without whitespace. \<open>buffered g\<close> is the buffer after the
  words \<open>g\<close> have been added to the empty buffer. \<open>for_group\<close> runs the loop on the
  words in the buffer instead of the buffer, \<open>groups\<close> adds the words flushed at the end,
  and \<open>stream_from\<close> is the generator started with any buffer.
\<close>

definition is_word :: "str \<Rightarrow> bool" where
  "is_word w = (w \<noteq> [] \<and> list_all nonspace w)"

definition buffered :: "str list \<Rightarrow> str" where
  "buffered g = concat (map (\<lambda>w. w @ lit '' '') g)"

fun for_group :: "str list \<Rightarrow> str list \<Rightarrow> str list list \<times> str list" where
  "for_group g [] = ([], g)"
| "for_group g (w # ws) =
     (if length (buffered (g @ [w])) > 20
      then (let (gs, left) = for_group [] ws in ((g @ [w]) # gs, left))
      else for_group (g @ [w]) ws)"

definition stream_from :: "str \<Rightarrow> str list \<Rightarrow> str list" where
  "stream_from buffer words =
     (let (yielded, left) = for_word buffer words
      in yielded @ (if left \<noteq> [] then [strip left @ lit ''\<newline>\<newline>''] else []))"

definition groups :: "str list \<Rightarrow> str list list" where
  "groups ws = (let (gs, left) = for_group [] ws in gs @ (if left \<noteq> [] then [left] else []))"

text \<open>
  Provider libraries for concrete runs, both without an attribute \<open>GenerationError\<close>:
  one that answers, one whose model call raises.
\<close>

definition model_returning :: "str \<Rightarrow> (unit, unit) genai" where
  "model_returning result =
     \<lparr>GenerativeModel = (\<lambda>name. Inr ()), generate_content = (\<lambda>model prompt. Inr ()),
      response_text = (\<lambda>response. Inr result), GenerationError = None\<rparr>"

definition model_raising :: "exn \<Rightarrow> (unit, unit) genai" where
  "model_raising e =
     \<lparr>GenerativeModel = (\<lambda>name. Inr ()), generate_content = (\<lambda>model prompt. Inl e),
      response_text = (\<lambda>response. Inr []), GenerationError = None\<rparr>"

section \<open>Splitting, stripping and joining\<close>

lemma lit_space: "lit '' '' = [32]"
  by (simp add: lit_def)
lemma lit_nl2: "lit ''\<newline>\<newline>'' = [10, 10]"
  by (simp add: lit_def)
lemma isspace_32: "isspace 32"
  by (simp add: isspace_def)
lemma isspace_10: "isspace 10"
  by (simp add: isspace_def)

lemma split_Nil_iff: "split s = [] \<longleftrightarrow> list_all isspace s"
  by (induction s) (simp_all add: split.simps split: list.splits)

lemma split_words: "list_all is_word (split s)"
proof (induction s rule: split.induct)
  case (1 s)
  show ?case
  proof (cases "dropWhile isspace s")
    case Nil
    show ?thesis unfolding split.simps [of s] Nil by simp
  next
    case (Cons c cs)
    then have "\<not> isspace c"
      by (metis hd_dropWhile list.sel(1) list.distinct(1))
    moreover have "list_all nonspace (takeWhile nonspace cs)"
      by (simp add: list_all_iff) (meson set_takeWhileD)
    ultimately have "is_word (c # takeWhile nonspace cs)"
      by (simp add: is_word_def nonspace_def)
    with 1 [OF Cons] Cons show ?thesis
      by (simp add: split.simps [of s])
  qed
qed

lemma split_space: "isspace c \<Longrightarrow> split (c # t) = split t"
  by (simp add: split.simps [of "c # t"] split.simps [of t])

lemma takeWhile_word: "list_all nonspace w \<Longrightarrow> isspace c \<Longrightarrow> takeWhile nonspace (w @ c # t) = w"
  by (induction w) (simp_all add: nonspace_def)

lemma dropWhile_word: "list_all nonspace w \<Longrightarrow> isspace c \<Longrightarrow> dropWhile nonspace (w @ c # t) = c # t"
  by (induction w) (simp_all add: nonspace_def)

lemma split_word:
  assumes "is_word w" and "isspace c"
  shows "split (w @ c # t) = w # split t"
proof -
  from assms(1) obtain a as where w: "w = a # as" and a: "\<not> isspace a" and as: "list_all nonspace as"
    by (cases w) (auto simp: is_word_def nonspace_def)
  have "split (w @ c # t) = (a # takeWhile nonspace (as @ c # t)) # split (dropWhile nonspace (as @ c # t))"
    using a by (simp add: w split.simps [of "a # as @ c # t"])
  also have "\<dots> = w # split (c # t)"
    using as assms(2) by (simp add: w takeWhile_word dropWhile_word)
  finally show ?thesis
    using assms(2) by (simp add: split_space)
qed

lemma split_join_nl: "list_all is_word h \<Longrightarrow> split (join [32] h @ [10, 10]) = h"
proof (induction "[32::nat]" h rule: join.induct)
  case 1
  show ?case by (simp add: split_space isspace_10 split.simps [of "[]"])
next
  case (2 x)
  then show ?case
    by (simp add: split_word isspace_10 split_space split.simps [of "[]"])
next
  case (3 x y ys)
  then show ?case
    by (simp add: split_word isspace_32)
qed

lemma buffered_join: "h \<noteq> [] \<Longrightarrow> buffered h = join [32] h @ [32]"
  by (induction "[32::nat]" h rule: join.induct) (simp_all add: buffered_def lit_space)

lemma word_ends: "is_word w \<Longrightarrow> \<not> isspace (hd w) \<and> \<not> isspace (last w)"
  unfolding is_word_def list_all_iff nonspace_def
  using hd_in_set last_in_set by blast

lemma join_ends:
  "list_all is_word h \<Longrightarrow> h \<noteq> [] \<Longrightarrow>
     join [32] h \<noteq> [] \<and> \<not> isspace (hd (join [32] h)) \<and> \<not> isspace (last (join [32] h))"
proof (induction "[32::nat]" h rule: join.induct)
  case 1
  then show ?case by simp
next
  case (2 x)
  then show ?case
    using word_ends [of x] by (simp add: is_word_def)
next
  case (3 x y ys)
  then show ?case
    using word_ends [of x] by (simp add: is_word_def)
qed

lemma strip_tail:
  assumes "x \<noteq> []" and "\<not> isspace (hd x)" and "\<not> isspace (last x)" and "list_all isspace t"
  shows "strip (x @ t) = x"
proof -
  have 1: "dropWhile isspace (x @ t) = x @ t"
    using assms(1,2) by (cases x) simp_all
  have "dropWhile isspace (rev t @ rev x) = dropWhile isspace (rev x)"
    by (rule dropWhile_append2) (use assms(4) in \<open>simp add: list_all_iff\<close>)
  also have "\<dots> = rev x"
    using assms(1,3) by (cases x rule: rev_cases) simp_all
  finally have 2: "dropWhile isspace (rev t @ rev x) = rev x" .
  show ?thesis
    by (simp add: strip_def 1 2)
qed

lemma strip_buffered: "list_all is_word h \<Longrightarrow> h \<noteq> [] \<Longrightarrow> strip (buffered h) = join [32] h"
  using join_ends [of h] by (simp add: buffered_join strip_tail isspace_32)

lemma strip_chunk: "list_all is_word h \<Longrightarrow> h \<noteq> [] \<Longrightarrow> strip (join [32] h @ [10, 10]) = join [32] h"
  using join_ends [of h] by (simp add: strip_tail isspace_10)

section \<open>The words and the trimming of the specification\<close>

lemma trim_left_dropWhile: "trim_left s = dropWhile isspace s"
  by (induction s) simp_all

lemma trim_right_all: "list_all isspace s \<Longrightarrow> trim_right s = []"
  by (cases s) simp_all

lemma trim_right_dropWhile: "trim_right s = rev (dropWhile isspace (rev s))"
proof (induction s)
  case Nil
  show ?case by simp
next
  case (Cons c cs)
  show ?case
  proof (cases "list_all isspace cs")
    case True
    then have "dropWhile isspace (rev cs @ [c]) = dropWhile isspace [c]"
      by (intro dropWhile_append2) (simp add: list_all_iff)
    with True show ?thesis
      by (simp add: trim_right_all)
  next
    case False
    then obtain x where "x \<in> set (rev cs)" and "\<not> isspace x"
      by (auto simp: list_all_iff)
    then have "dropWhile isspace (rev cs @ [c]) = dropWhile isspace (rev cs) @ [c]"
      by (rule dropWhile_append1)
    with False Cons show ?thesis
      by simp
  qed
qed

lemma trimmed_strip: "trimmed s = strip s"
  by (simp add: trimmed_def strip_def trim_left_dropWhile trim_right_dropWhile)

lemma split_runs:
  "split s = (if takeWhile nonspace s = [] then [] else [takeWhile nonspace s])
               @ split (dropWhile nonspace s)"
proof (cases s)
  case Nil
  then show ?thesis by (simp add: split.simps [of "[]"])
next
  case (Cons c cs)
  show ?thesis
  proof (cases "isspace c")
    case True
    then show ?thesis by (simp add: Cons nonspace_def)
  next
    case False
    then show ?thesis
      by (simp add: Cons nonspace_def split.simps [of "c # cs"])
  qed
qed

lemma scan_words_split:
  "scan_words w s = (if w @ takeWhile nonspace s = [] then [] else [w @ takeWhile nonspace s])
                      @ split (dropWhile nonspace s)"
proof (induction s arbitrary: w)
  case Nil
  show ?case by (simp add: split.simps [of "[]"])
next
  case (Cons c cs)
  show ?case
  proof (cases "isspace c")
    case True
    have "scan_words [] cs = split cs"
      using Cons [of "[]"] split_runs [of cs] by simp
    with True show ?thesis
      by (simp add: nonspace_def split_space)
  next
    case False
    with Cons [of "w @ [c]"] show ?thesis
      by (simp add: nonspace_def)
  qed
qed

lemma words_of_split: "words_of r = split r"
  using scan_words_split [of "[]" r] split_runs [of r] by (simp add: words_of_def)

section \<open>The loop, group by group\<close>

lemma buffered_snoc: "buffered (g @ [w]) = buffered g @ w @ lit '' ''"
  by (simp add: buffered_def)

lemma buffered_Nil_iff: "buffered g = [] \<longleftrightarrow> g = []"
  by (cases g) (simp_all add: buffered_def lit_space)

lemma for_word_group:
  "for_word (buffered g) ws =
     (map (\<lambda>h. strip (buffered h) @ lit ''\<newline>\<newline>'') (fst (for_group g ws)),
      buffered (snd (for_group g ws)))"
proof (induction ws arbitrary: g)
  case Nil
  show ?case by simp
next
  case (Cons w ws)
  have e: "buffered [] = []" by (simp add: buffered_def)
  show ?case
    using Cons [of "g @ [w]"] Cons [of "[]"]
    by (simp add: buffered_snoc e Let_def split: prod.splits)
qed

lemma for_group_concat: "concat (fst (for_group g ws)) @ snd (for_group g ws) = g @ ws"
  by (induction ws arbitrary: g) (simp_all add: Let_def case_prod_beta)

lemma for_group_full:
  "h \<in> set (fst (for_group g ws)) \<Longrightarrow> h \<noteq> [] \<and> 20 < length (buffered h)"
proof (induction ws arbitrary: g)
  case Nil
  then show ?case by simp
next
  case (Cons w ws)
  show ?case
  proof (cases "20 < length (buffered (g @ [w]))")
    case True
    with Cons.prems have "h = g @ [w] \<or> h \<in> set (fst (for_group [] ws))"
      by (simp add: Let_def case_prod_beta)
    with True Cons.IH [of "[]"] show ?thesis by auto
  next
    case False
    with Cons.prems Cons.IH [of "g @ [w]"] show ?thesis by simp
  qed
qed

lemma concat_groups: "concat (groups ws) = ws"
  using for_group_concat [of "[]" ws] by (auto simp: groups_def case_prod_beta)

lemma groups_nonempty: "h \<in> set (groups ws) \<Longrightarrow> h \<noteq> []"
  using for_group_full [of h "[]" ws] by (auto simp: groups_def case_prod_beta split: if_splits)

lemma groups_words: "list_all is_word ws \<Longrightarrow> h \<in> set (groups ws) \<Longrightarrow> list_all is_word h"
  using concat_groups [of ws] by (metis (no_types, lifting) list_all_iff UN_I set_concat)

lemma stream_from_groups:
  assumes "list_all is_word ws"
  shows "stream_from [] ws = map (\<lambda>h. join [32] h @ [10, 10]) (groups ws)"
proof -
  have e: "buffered [] = []" by (simp add: buffered_def)
  have s: "strip (buffered h) = join [32] h" if "h \<in> set (groups ws)" for h
    using that assms groups_words groups_nonempty strip_buffered by blast
  have "stream_from [] ws = map (\<lambda>h. strip (buffered h) @ [10, 10]) (groups ws)"
    using for_word_group [of "[]" ws]
    by (simp add: stream_from_def groups_def e lit_nl2 buffered_Nil_iff case_prod_beta)
  also have "\<dots> = map (\<lambda>h. join [32] h @ [10, 10]) (groups ws)"
    using s by simp
  finally show ?thesis .
qed

lemma stream_response_groups:
  "stream_response r = map (\<lambda>h. join [32] h @ [10, 10]) (groups (split r))"
  using stream_from_groups [OF split_words, of r]
  by (simp add: stream_response_def stream_from_def)

lemma join_concat:
  "list_all (\<lambda>h. h \<noteq> []) gs \<Longrightarrow> join [32] (map (join [32]) gs) = join [32] (concat gs)"
proof (induction gs)
  case Nil
  show ?case by simp
next
  case (Cons g gs)
  have j: "join [32] (x # xs) = x @ (if xs = [] then [] else 32 # join [32] xs)" for x xs
    by (cases xs) simp_all
  have a: "join [32] (g @ ys) = join [32] g @ (if ys = [] then [] else 32 # join [32] ys)"
    if "g \<noteq> []" for g ys
    using that by (induction "[32::nat]" g rule: join.induct) (simp_all add: j)
  have c: "concat gs = [] \<longleftrightarrow> gs = []"
    using Cons.prems by (cases gs) simp_all
  from Cons show ?case
    by (simp add: j a) (cases gs; simp)
qed

section \<open>The loop against the accumulation of the specification\<close>

lemma stream_from_accumulate:
  "b \<noteq> [] \<Longrightarrow>
     (if 20 < length b then (strip b @ lit ''\<newline>\<newline>'') # stream_from [] ws else stream_from b ws)
       = (strip (fst (accumulate b ws)) @ lit ''\<newline>\<newline>'') # stream_from [] (snd (accumulate b ws))"
proof (induction ws arbitrary: b)
  case Nil
  then show ?case by (simp add: stream_from_def)
next
  case (Cons w ws)
  show ?case
  proof (cases "20 < length b")
    case True
    then show ?thesis by simp
  next
    case False
    have "stream_from b (w # ws)
            = (if 20 < length (b @ w @ lit '' '')
               then (strip (b @ w @ lit '' '') @ lit ''\<newline>\<newline>'') # stream_from [] ws
               else stream_from (b @ w @ lit '' '') ws)"
      by (simp add: stream_from_def Let_def case_prod_beta)
    also have "\<dots> = (strip (fst (accumulate (b @ w @ lit '' '') ws)) @ lit ''\<newline>\<newline>'')
                        # stream_from [] (snd (accumulate (b @ w @ lit '' '') ws))"
      by (rule Cons.IH) (simp add: lit_space)
    finally show ?thesis using False by simp
  qed
qed

lemma stream_from_spec: "stream_from [] ws = spec_chunks ws"
proof (induction ws rule: spec_chunks.induct)
  case 1
  show ?case by (simp add: stream_from_def spec_chunks.simps)
next
  case (2 w ws)
  have "stream_from [] (w # ws)
          = (if 20 < length (w @ lit '' '')
             then (strip (w @ lit '' '') @ lit ''\<newline>\<newline>'') # stream_from [] ws
             else stream_from (w @ lit '' '') ws)"
    by (simp add: stream_from_def Let_def case_prod_beta)
  also have "\<dots> = (strip (fst (accumulate (w @ lit '' '') ws)) @ lit ''\<newline>\<newline>'')
                        # stream_from [] (snd (accumulate (w @ lit '' '') ws))"
    by (rule stream_from_accumulate) (simp add: lit_space)
  also have "stream_from [] (snd (accumulate (w @ lit '' '') ws))
               = spec_chunks (snd (accumulate (w @ lit '' '') ws))"
    by (rule 2 [OF refl]) (simp add: prod_eq_iff)
  finally show ?case
    by (simp add: spec_chunks.simps(2) [of w ws] case_prod_beta trimmed_strip)
qed

section \<open>Short texts\<close>

lemma join_length:
  "length (join [32] (x # xs)) = length x + (if xs = [] then 0 else 1 + length (join [32] xs))"
  by (cases xs) simp_all

text \<open>
  The words of a text, joined by single spaces, are no longer than the text behind its
  leading whitespace: every word but the first has a whitespace in front of it.
\<close>

lemma length_join_split:
  "split s \<noteq> [] \<Longrightarrow> length (join [32] (split s)) \<le> length (dropWhile isspace s)"
proof (induction s rule: split.induct)
  case (1 s)
  from 1(2) obtain c cs where d: "dropWhile isspace s = c # cs"
    by (cases "dropWhile isspace s") (simp_all add: split.simps [of s])
  let ?rest = "dropWhile nonspace cs"
  have s: "split s = (c # takeWhile nonspace cs) # split ?rest"
    by (simp add: split.simps [of s] d)
  have len: "length (takeWhile nonspace cs) + length ?rest = length cs"
    by (metis length_append takeWhile_dropWhile_id)
  show ?case
  proof (cases "split ?rest = []")
    case True
    with len show ?thesis by (simp add: s d)
  next
    case False
    then have ih: "length (join [32] (split ?rest)) \<le> length (dropWhile isspace ?rest)"
      by (rule 1(1) [OF d])
    from False obtain e es where r: "?rest = e # es"
      by (cases ?rest) (simp_all add: split.simps [of "[]"])
    then have "\<not> nonspace e"
      by (metis hd_dropWhile list.sel(1) list.distinct(1))
    then have "dropWhile isspace ?rest = dropWhile isspace es"
      by (simp add: r nonspace_def)
    then have "length (dropWhile isspace ?rest) \<le> length es"
      by (simp add: length_dropWhile_le)
    with ih r len False show ?thesis
      by (simp add: s d join_length)
  qed
qed

lemma buffered_append: "buffered (g @ h) = buffered g @ buffered h"
  by (simp add: buffered_def)

lemma for_group_short: "length (buffered (g @ ws)) \<le> 20 \<Longrightarrow> for_group g ws = ([], g @ ws)"
proof (induction ws arbitrary: g)
  case Nil
  show ?case by simp
next
  case (Cons w ws)
  from Cons.prems have "length (buffered (g @ [w])) \<le> 20"
    by (simp add: buffered_append buffered_def)
  moreover from Cons.prems have "for_group (g @ [w]) ws = ([], (g @ [w]) @ ws)"
    by (intro Cons.IH) simp
  ultimately show ?case by simp
qed

section \<open>Texts that are their words joined by single spaces\<close>

lemma split_single: "is_word w \<Longrightarrow> split w = [w]"
proof -
  assume "is_word w"
  then obtain a as where w: "w = a # as" and a: "\<not> isspace a" and as: "list_all nonspace as"
    by (cases w) (auto simp: is_word_def nonspace_def)
  have t: "takeWhile nonspace as = as"
    using as by (simp add: list_all_iff)
  have d: "dropWhile nonspace as = []"
    using as by (simp add: list_all_iff)
  show ?thesis
    using a by (simp add: w split.simps [of "a # as"] t d split.simps [of "[]"])
qed

lemma split_join: "list_all is_word ws \<Longrightarrow> split (join [32] ws) = ws"
proof (induction "[32::nat]" ws rule: join.induct)
  case 1
  show ?case by (simp add: split.simps [of "[]"])
next
  case (2 x)
  then show ?case by (simp add: split_single)
next
  case (3 x y ys)
  then show ?case by (simp add: split_word isspace_32)
qed

lemma trim_delimiter_chunk: "trim_delimiter (x @ [10, 10]) = x"
  by (simp add: trim_delimiter_def lit_nl2)

lemma rejoin_words:
  "join [32] (map trim_delimiter (stream_response r)) = join [32] (split r)"
proof -
  have "map trim_delimiter (stream_response r) = map (join [32]) (groups (split r))"
    by (simp add: stream_response_groups trim_delimiter_chunk o_def)
  moreover have "list_all (\<lambda>h. h \<noteq> []) (groups (split r))"
    using groups_nonempty by (auto simp: list_all_iff)
  ultimately show ?thesis
    by (simp add: join_concat concat_groups)
qed

text \<open>
  A text that is already its words joined by single spaces comes back as it is.
\<close>

lemma rejoin_of_joined:
  "list_all is_word ws \<Longrightarrow>
     join [32] (map trim_delimiter (stream_response (join [32] ws))) = join [32] ws"
  by (simp add: rejoin_words split_join)

section \<open>Outcomes of the handler\<close>

lemma model_call_raises:
  "GenerativeModel genai (lit ''gemini-1.5-flash'') = Inr model \<Longrightarrow>
   generate_content genai model (full_prompt (render (load_memory_variables memory)) query) = Inl e \<Longrightarrow>
   fst (try_body genai render query memory) = Inl e"
  by (simp add: try_body_def)

lemma response_text_raises:
  "GenerativeModel genai (lit ''gemini-1.5-flash'') = Inr model \<Longrightarrow>
   generate_content genai model (full_prompt (render (load_memory_variables memory)) query) = Inr response \<Longrightarrow>
   response_text genai response = Inl e \<Longrightarrow>
   fst (try_body genai render query memory) = Inl e"
  by (simp add: try_body_def)

text \<open>
  Without the attribute every failure ends in the \<open>AttributeError\<close>; were the class
  there, the two clauses would answer by the class of the exception.
\<close>

lemma except_without_class:
  "GenerationError genai = None \<Longrightarrow> fst (try_body genai render query memory) = Inl e \<Longrightarrow>
   fst (generate_response genai render query memory) = AttributeError"
  by (simp add: generate_response_def except_def case_prod_beta)

lemma except_with_class:
  "GenerationError genai = Some is_GenerationError \<Longrightarrow>
   fst (try_body genai render query memory) = Inl e \<Longrightarrow>
   fst (generate_response genai render query memory)
     = HTTPException 500
         (if is_GenerationError e then ''AI generation error.'' else ''Internal server error.'')"
  by (simp add: generate_response_def except_def case_prod_beta)

lemmas run_simps =
  lit_def split.simps isspace_def nonspace_def stream_response_def strip_def Let_def
  trim_delimiter_def

section \<open>The claims\<close>

text \<open>
  Claim C1. For every query, when the provider library builds the model, the model call
  succeeds and the text of its response is \<open>r\<close>, the handler leaves the conversation
  history with exactly one more entry at its end, the pair of the query and \<open>r\<close>, and the
  length of the history is greater by exactly one.
\<close>

theorem generate_response_appends:
  assumes "GenerativeModel genai (lit ''gemini-1.5-flash'') = Inr model"
    and "generate_content genai model
           (full_prompt (render (load_memory_variables memory)) query) = Inr response"
    and "response_text genai response = Inr r"
  shows "snd (generate_response genai render query memory)
           = memory @ [\<lparr>entry_input = query, entry_output = r\<rparr>]
         \<and> length (snd (generate_response genai render query memory)) = length memory + 1"
  using assms by (simp add: generate_response_def try_body_def save_context_def)

theorem generate_response_appends_witness:
  "snd (generate_response (model_returning (lit ''Hi'')) (\<lambda>h. []) (lit ''Hello'') [])
      = [\<lparr>entry_input = lit ''Hello'', entry_output = lit ''Hi''\<rparr>]
   \<and> length (snd (generate_response (model_returning (lit ''Hi'')) (\<lambda>h. []) (lit ''Hello'') [])) = 1"
  using generate_response_appends
    [of "model_returning (lit ''Hi'')" "()" "\<lambda>h. []" "[]" "lit ''Hello''" "()" "lit ''Hi''"]
  by (simp add: model_returning_def)

text \<open>
  Claim C2. For every response text, the chunks the generator yields are exactly the
  chunks of the specification's wording: the whitespace-delimited words of the text are
  accumulated greedily, each followed by one space, until the accumulation is longer than
  20; the accumulation is flushed trimmed, followed by the delimiter; a last partial
  accumulation is flushed if and only if it is not empty. The accumulation measured
  against 20 is the untrimmed one.
\<close>

theorem stream_response_refines_spec: "stream_response r = spec_chunks (words_of r)"
  using stream_from_spec [of "split r"]
  by (simp add: stream_response_def stream_from_def words_of_split)

text \<open>
  On a text with leading, doubled and trailing whitespace and a newline between words, the
  specification's chunks are computed from its own definitions, and the generator yields
  them.
\<close>

theorem stream_response_refines_spec_witness:
  "spec_chunks (words_of (lit ''  Hi there,\<newline>how can  I help you today friend ''))
     = [lit ''Hi there, how can I help\<newline>\<newline>'', lit ''you today friend\<newline>\<newline>'']
   \<and> stream_response (lit ''  Hi there,\<newline>how can  I help you today friend '')
     = [lit ''Hi there, how can I help\<newline>\<newline>'', lit ''you today friend\<newline>\<newline>'']"
  using stream_response_refines_spec [of "lit ''  Hi there,\<newline>how can  I help you today friend ''"]
  by (simp add: lit_def isspace_def words_of_def trimmed_def spec_chunks.simps)

text \<open>
  Claim C3, as amended. For every response text, the chunks without their trailing
  delimiters, rejoined with single spaces, are the words of the text joined by single
  spaces: the text without its leading and trailing whitespace and with every run of
  whitespace between two words replaced by one space.
\<close>

theorem rejoin_normalised:
  "join (lit '' '') (map trim_delimiter (stream_response r)) = join (lit '' '') (split r)"
  using rejoin_words [of r] by (simp add: lit_space)

text \<open>
  The claim as it was stated fails: the text \<open>a\<close>, two spaces, \<open>b\<close> comes back with one
  space.
\<close>

theorem rejoin_lossless_counterexample:
  "join (lit '' '') (map trim_delimiter (stream_response (lit ''a  b''))) \<noteq> lit ''a  b''"
  by (simp add: run_simps)

text \<open>
  Claim C4. It asks for the answer HTTP 500 with the detail \<open>AI generation error.\<close> when
  the model call fails, and with the detail \<open>Internal server error.\<close> for any other
  failure. The code does neither: with the provider library as it is, which has no attribute
  \<open>GenerationError\<close>, a request whose model call raises ends in an uncaught
  \<open>AttributeError\<close>, raised by the first \<open>except\<close> clause, and no \<open>HTTPException\<close>
  with either detail is raised.
\<close>

theorem except_clause_raises:
  "generate_content (model_raising (Exception ''ResourceExhausted'')) ()
       (full_prompt [] (lit ''Hello'')) = Inl (Exception ''ResourceExhausted'')
   \<and> fst (generate_response (model_raising (Exception ''ResourceExhausted''))
            (\<lambda>h. []) (lit ''Hello'') []) = AttributeError
   \<and> fst (generate_response (model_raising (Exception ''ResourceExhausted''))
            (\<lambda>h. []) (lit ''Hello'') []) \<noteq> HTTPException 500 ''AI generation error.''
   \<and> fst (generate_response (model_raising (Exception ''ResourceExhausted''))
            (\<lambda>h. []) (lit ''Hello'') []) \<noteq> HTTPException 500 ''Internal server error.''"
  by (simp add: model_raising_def generate_response_def try_body_def except_def)

text \<open>
  Claim C5. For every request whose \<open>try\<close> block raises, at whichever step (the model
  call among them, see \<open>model_call_raises\<close>), the response streams no chunk and the
  conversation history is as it was: the query is not appended.
\<close>

theorem failure_leaves_history:
  assumes "fst (try_body genai render query memory) = Inl e"
  shows "streamed (fst (generate_response genai render query memory)) = []
         \<and> snd (generate_response genai render query memory) = memory"
proof -
  have "streamed (except genai e) = []"
    by (simp add: except_def split: option.splits)
  moreover have "snd (try_body genai render query memory) = memory"
    using assms by (auto simp: try_body_def Let_def split: sum.splits)
  ultimately show ?thesis
    using assms by (simp add: generate_response_def case_prod_beta)
qed

theorem failure_leaves_history_witness:
  "fst (try_body (model_raising (Exception ''ResourceExhausted'')) (\<lambda>h. []) (lit ''Hello'') [])
      = Inl (Exception ''ResourceExhausted'')
   \<and> streamed (fst (generate_response (model_raising (Exception ''ResourceExhausted''))
                    (\<lambda>h. []) (lit ''Hello'') [])) = []
   \<and> snd (generate_response (model_raising (Exception ''ResourceExhausted''))
            (\<lambda>h. []) (lit ''Hello'') []) = []"
  using failure_leaves_history
    [of "model_raising (Exception ''ResourceExhausted'')" "\<lambda>h. []" "lit ''Hello''" "[]"
        "Exception ''ResourceExhausted''"]
  by (simp add: model_raising_def try_body_def)

text \<open>
  Claim C6, as amended. For every response text shorter than 20 that has at least one
  word, the generator yields exactly one chunk: the words of the text joined by single
  spaces (the text without its surrounding whitespace and with every inner run of
  whitespace replaced by one space), followed by the delimiter.
\<close>

theorem short_text_one_chunk:
  assumes "length r < 20" and "split r \<noteq> []"
  shows "stream_response r = [join (lit '' '') (split r) @ lit ''\<newline>\<newline>'']"
proof -
  have "length (join [32] (split r)) \<le> length (dropWhile isspace r)"
    using assms(2) by (rule length_join_split)
  also have "\<dots> \<le> length r"
    by (rule length_dropWhile_le)
  finally have "length (buffered ([] @ split r)) \<le> 20"
    using assms by (simp add: buffered_join)
  then have "for_group [] (split r) = ([], [] @ split r)"
    by (rule for_group_short)
  then have "groups (split r) = [split r]"
    using assms(2) by (simp add: groups_def)
  then show ?thesis
    by (simp add: stream_response_groups lit_space lit_nl2)
qed

theorem short_text_one_chunk_witness:
  "length (lit '' a  b '') < 20 \<and> split (lit '' a  b '') \<noteq> []
   \<and> stream_response (lit '' a  b '') = [lit ''a b\<newline>\<newline>'']"
  using short_text_one_chunk [of "lit '' a  b ''"]
  by (simp add: run_simps)

text \<open>
  The claim as it was stated fails twice: the one chunk of the text \<open>a\<close>, two spaces,
  \<open>b\<close> is not the trimmed text, with or without the delimiter, and the empty text, which
  is shorter than 20 too, has no chunk.
\<close>

theorem short_text_counterexample:
  "length (lit ''a  b'') < 20
   \<and> stream_response (lit ''a  b'') \<noteq> [strip (lit ''a  b'')]
   \<and> map trim_delimiter (stream_response (lit ''a  b'')) \<noteq> [strip (lit ''a  b'')]
   \<and> length (lit '''') < 20
   \<and> length (stream_response (lit '''')) \<noteq> 1"
  by (simp add: run_simps)

text \<open>
  Claim C7. A response text has no word exactly when it is empty or all whitespace, and
  for every such text the generator yields no chunk.
\<close>

theorem no_words_no_chunks:
  "(split r = [] \<longleftrightarrow> list_all isspace r) \<and> (split r = [] \<longrightarrow> stream_response r = [])"
proof (intro conjI impI)
  show "split r = [] \<longleftrightarrow> list_all isspace r"
    by (rule split_Nil_iff)
next
  assume "split r = []"
  then show "stream_response r = []"
    by (simp add: stream_response_def)
qed

theorem no_words_no_chunks_witness:
  "split (lit '' \<newline>  '') = [] \<and> list_all isspace (lit '' \<newline>  '')
     \<and> stream_response (lit '' \<newline>  '') = []"
  using no_words_no_chunks [of "lit '' \<newline>  ''"]
  by (simp add: lit_def isspace_def)

text \<open>
  Claim C8. With an empty history and the query \<open>Hello\<close>, when the provider answers
  \<open>Hi there, how can I help you today friend\<close>, the response streams exactly two
  chunks: the first is flushed when the buffer gets longer than 20, at the word \<open>help\<close>,
  the second holds the words left; the history then has length 1.
\<close>

theorem scenario_two_chunks:
  assumes "GenerativeModel genai (lit ''gemini-1.5-flash'') = Inr model"
    and "generate_content genai model (full_prompt (render []) (lit ''Hello'')) = Inr response"
    and "response_text genai response = Inr (lit ''Hi there, how can I help you today friend'')"
  shows "streamed (fst (generate_response genai render (lit ''Hello'') []))
           = [lit ''Hi there, how can I help\<newline>\<newline>'', lit ''you today friend\<newline>\<newline>'']
         \<and> length (snd (generate_response genai render (lit ''Hello'') [])) = 1"
proof -
  have "stream_response (lit ''Hi there, how can I help you today friend'')
          = [lit ''Hi there, how can I help\<newline>\<newline>'', lit ''you today friend\<newline>\<newline>'']"
    by (simp add: run_simps)
  with assms show ?thesis
    by (simp add: generate_response_def try_body_def save_context_def load_memory_variables_def)
qed

theorem scenario_two_chunks_witness:
  "streamed (fst (generate_response
       (model_returning (lit ''Hi there, how can I help you today friend''))
       (\<lambda>h. []) (lit ''Hello'') []))
     = [lit ''Hi there, how can I help\<newline>\<newline>'', lit ''you today friend\<newline>\<newline>'']
   \<and> length (snd (generate_response
       (model_returning (lit ''Hi there, how can I help you today friend''))
       (\<lambda>h. []) (lit ''Hello'') [])) = 1"
  using scenario_two_chunks
    [of "model_returning (lit ''Hi there, how can I help you today friend'')" "()" "\<lambda>h. []" "()"]
  by (simp add: model_returning_def)

text \<open>
  Claim C9. For every response text, every chunk the generator yields is a non-empty
  text that is not all whitespace: trimmed it is not empty, it has at least one word, and
  its words are words of the response text.
\<close>

theorem chunks_hold_words:
  assumes "c \<in> set (stream_response r)"
  shows "c \<noteq> [] \<and> strip c \<noteq> [] \<and> split c \<noteq> [] \<and> set (split c) \<subseteq> set (split r)"
proof -
  from assms obtain h where h: "h \<in> set (groups (split r))" and c: "c = join [32] h @ [10, 10]"
    by (auto simp: stream_response_groups)
  have ne: "h \<noteq> []" using h by (rule groups_nonempty)
  have w: "list_all is_word h" using split_words h by (rule groups_words)
  have "set h \<subseteq> set (concat (groups (split r)))"
    using h by auto
  then have "set h \<subseteq> set (split r)"
    by (simp only: concat_groups)
  moreover have "split c = h"
    using w by (simp add: c split_join_nl)
  moreover have "strip c = join [32] h"
    using w ne by (simp add: c strip_chunk)
  moreover have "join [32] h \<noteq> []"
    using join_ends [OF w ne] by simp
  ultimately show ?thesis
    using ne by (simp add: c)
qed

theorem chunks_hold_words_witness:
  "lit ''you today friend\<newline>\<newline>''
     \<in> set (stream_response (lit ''Hi there, how can I help you today friend''))
   \<and> strip (lit ''you today friend\<newline>\<newline>'') \<noteq> []
   \<and> split (lit ''you today friend\<newline>\<newline>'') \<noteq> []
   \<and> set (split (lit ''you today friend\<newline>\<newline>''))
        \<subseteq> set (split (lit ''Hi there, how can I help you today friend''))"
  using chunks_hold_words [of "lit ''you today friend\<newline>\<newline>''"
      "lit ''Hi there, how can I help you today friend''"]
  by (simp add: run_simps)

text \<open>
  Claim C10. For every response text, every chunk yielded inside the loop, that is every
  chunk but a last one flushed behind the loop, has a trimmed length of at least 20.
\<close>

theorem loop_chunks_reach_threshold:
  assumes "c \<in> set (fst (for_word [] (split r)))"
  shows "20 \<le> length (strip c)"
proof -
  have e: "buffered [] = []" by (simp add: buffered_def)
  from assms for_word_group [of "[]" "split r"]
  obtain h where h: "h \<in> set (fst (for_group [] (split r)))"
    and c: "c = strip (buffered h) @ [10, 10]"
    by (auto simp: e lit_nl2)
  have full: "h \<noteq> [] \<and> 20 < length (buffered h)"
    using h by (rule for_group_full)
  have "h \<in> set (groups (split r))"
    using h by (simp add: groups_def case_prod_beta)
  with split_words have w: "list_all is_word h"
    by (rule groups_words)
  have "strip c = join [32] h"
    using w full by (simp add: c strip_buffered strip_chunk)
  moreover have "length (buffered h) = length (join [32] h) + 1"
    using full by (simp add: buffered_join)
  ultimately show ?thesis
    using full by simp
qed

theorem loop_chunks_reach_threshold_witness:
  "lit ''Hi there, how can I help\<newline>\<newline>''
     \<in> set (fst (for_word [] (split (lit ''Hi there, how can I help you today friend''))))
   \<and> 20 \<le> length (strip (lit ''Hi there, how can I help\<newline>\<newline>''))"
  using loop_chunks_reach_threshold [of "lit ''Hi there, how can I help\<newline>\<newline>''"
      "lit ''Hi there, how can I help you today friend''"]
  by (simp add: run_simps)

end
